theory Spec2Isabelle
  imports Main "HOL-Library.Word"
begin

unbundle bit_operations_syntax

section \<open>The dynamic IPAM allocator of service/service_ipam_allocation.go\<close>

text \<open>
  The allocator keeps, for each slice, a pool of \<open>net.IPNet\<close> values: the map
  \<open>Allocated\<close> from cluster names to networks and the list \<open>FreeBlocks\<close>.
  A \<open>net.IP\<close> and a \<open>net.IPMask\<close> are byte slices; they are modelled as lists of
  8-bit words, the \<open>nil\<close> slice being the empty list (the program never tells a
  \<open>nil\<close> slice from an empty one other than through \<open>len\<close> and \<open>== nil\<close> on the
  result of \<open>To4\<close>, which is never an empty non-nil slice).  Go's \<open>int\<close> is taken
  to be 64 bits wide, as on every platform the controller is built for.
\<close>

type_synonym byte = "8 word"
type_synonym IP = "byte list"
type_synonym IPMask = "byte list"

record IPNet =
  IP :: IP
  Mask :: IPMask

subsection \<open>The functions of Go's package net that the allocator calls\<close>

text \<open>\<open>IP.To4\<close>: the 4-byte form of an IPv4 address, \<open>nil\<close> for anything else.\<close>

definition To4 :: "IP \<Rightarrow> IP" where
  "To4 ip =
     (if length ip = 4 then ip
      else if length ip = 16 \<and> list_all (\<lambda>b. b = 0) (take 10 ip)
              \<and> ip ! 10 = 0xff \<and> ip ! 11 = 0xff
      then drop 12 ip
      else [])"

text \<open>
  \<open>simpleMaskLength\<close>: the number of leading one bits of a mask made of ones followed
  by zeros, \<open>-1\<close> for any other mask.  Its inner loop
  \<^verbatim>\<open>for v&0x80 != 0 { n++; v <<= 1 }\<close> is \<open>leading_ones\<close>.
\<close>

function leading_ones :: "int \<Rightarrow> byte \<Rightarrow> int \<times> byte" where
  "leading_ones n v =
     (if v AND 0x80 \<noteq> 0 then leading_ones (n + 1) (push_bit 1 v) else (n, v))"
  by pat_completeness auto
termination
proof (relation "measure (\<lambda>(n, v). unat v)")
  show "wf (measure (\<lambda>(n :: int, v :: byte). unat v))" by simp
next
  fix n :: int and v :: byte
  assume top: "v AND 0x80 \<noteq> 0"
  have "bit v 7" using top and_exp_eq_0_iff_not_bit [of v 7] by simp
  then have "bit (unat v) 7" by (simp add: bit_unsigned_iff)
  then have "odd (unat v div 2 ^ 7)" by (simp add: bit_iff_odd)
  then have "unat v div 128 \<noteq> 0" by (rule_tac ccontr) simp
  then have lo: "128 \<le> unat v" by simp
  have hi: "unat v < 256" using unsigned_less [of v, where 'a = nat] by simp
  have "unat (push_bit 1 v) = (2 * unat v) mod 256"
    by (simp add: unat_word_ariths mult.commute)
  also have "\<dots> = 2 * unat v - 256" using lo hi by (simp add: mod_if)
  finally have "unat (push_bit 1 v) < unat v" using lo hi by simp
  then show "((n + 1, push_bit 1 v), (n, v)) \<in> measure (\<lambda>(n, v). unat v)" by simp
qed

declare leading_ones.simps [simp del]

fun simpleMaskLength_from :: "int \<Rightarrow> IPMask \<Rightarrow> int" where
  "simpleMaskLength_from n [] = n"
| "simpleMaskLength_from n (v # rest) =
     (if v = 0xff then simpleMaskLength_from (n + 8) rest
      else (case leading_ones n v of
              (n', v') \<Rightarrow>
                if v' \<noteq> 0 then - 1
                else if list_ex (\<lambda>b. b \<noteq> 0) rest then - 1
                else n'))"

definition simpleMaskLength :: "IPMask \<Rightarrow> int" where
  "simpleMaskLength m = simpleMaskLength_from 0 m"

text \<open>\<open>IPMask.Size\<close>: the pair (ones, bits), or (0, 0) for a mask that is not canonical.\<close>

definition Size :: "IPMask \<Rightarrow> int \<times> int" where
  "Size m =
     (let ones = simpleMaskLength m
      in if ones = - 1 then (0, 0) else (ones, int (length m) * 8))"

text \<open>
  \<open>CIDRMask(ones, bits)\<close>: \<open>nil\<close> unless \<open>bits\<close> is 32 or 128 and
  \<open>0 \<le> ones \<le> bits\<close>; otherwise \<open>bits / 8\<close> bytes, \<open>ones\<close> one bits first.
\<close>

fun CIDRMask_bytes :: "nat \<Rightarrow> nat \<Rightarrow> IPMask" where
  "CIDRMask_bytes 0 n = []"
| "CIDRMask_bytes (Suc l) n =
     (if 8 \<le> n then 0xff # CIDRMask_bytes l (n - 8)
      else NOT (drop_bit n 0xff) # CIDRMask_bytes l 0)"

definition CIDRMask :: "int \<Rightarrow> int \<Rightarrow> IPMask" where
  "CIDRMask ones bits =
     (if bits \<noteq> 32 \<and> bits \<noteq> 128 then []
      else if ones < 0 \<or> bits < ones then []
      else CIDRMask_bytes (nat (bits div 8)) (nat ones))"

text \<open>
  \<open>networkNumberAndMask\<close>: the address and the mask of a network brought to the same
  length, or \<open>(nil, nil)\<close> when they do not fit together.
\<close>

definition networkNumberAndMask :: "IPNet \<Rightarrow> IP \<times> IPMask" where
  "networkNumberAndMask n =
     (if To4 (IP n) = [] \<and> length (IP n) \<noteq> 16 then ([], [])
      else let ip = (if To4 (IP n) = [] then IP n else To4 (IP n)); m = Mask n
           in if length m = 4 then (if length ip \<noteq> 4 then ([], []) else (ip, m))
              else if length m = 16 then (if length ip = 4 then (ip, drop 12 m) else (ip, m))
              else ([], []))"

text \<open>\<open>IPNet.Contains\<close>: the address agrees with the network on every masked bit.\<close>

definition Contains :: "IPNet \<Rightarrow> IP \<Rightarrow> bool" where
  "Contains n ip =
     (case networkNumberAndMask n of
        (nn, m) \<Rightarrow>
          let x = (if To4 ip \<noteq> [] then To4 ip else ip); l = length x
          in if l \<noteq> length nn then False
             else list_all (\<lambda>i. nn ! i AND m ! i = x ! i AND m ! i) [0..<l])"

definition v4InV6Prefix :: "byte list" where
  "v4InV6Prefix = [0, 0, 0, 0, 0, 0, 0, 0, 0, 0, 0xff, 0xff]"

text \<open>\<open>IP.Equal\<close>: the same address, an IPv4 address being equal to its 16-byte form.\<close>

definition IP_Equal :: "IP \<Rightarrow> IP \<Rightarrow> bool" where
  "IP_Equal ip x =
     (if length ip = length x then ip = x
      else if length ip = 4 \<and> length x = 16 then take 12 x = v4InV6Prefix \<and> ip = drop 12 x
      else if length ip = 16 \<and> length x = 4 then take 12 ip = v4InV6Prefix \<and> drop 12 ip = x
      else False)"

subsection \<open>Go's integer operators\<close>

text \<open>
  \<open>/\<close> and \<open>%\<close> on \<open>int\<close> truncate towards zero.  \<open>shl_one k\<close> is the expression
  \<^verbatim>\<open>1 << uint(k)\<close> at type \<open>int\<close>: the conversion to \<open>uint\<close> wraps a negative
  \<open>k\<close> to \<open>k + 2^64\<close>, a shift by 64 or more gives 0, and a shift by 63 gives the
  least \<open>int\<close>.
\<close>

definition go_quot :: "int \<Rightarrow> int \<Rightarrow> int" where
  "go_quot a b = sgn a * sgn b * (\<bar>a\<bar> div \<bar>b\<bar>)"

definition go_rem :: "int \<Rightarrow> int \<Rightarrow> int" where
  "go_rem a b = a - b * go_quot a b"

definition shl_one :: "int \<Rightarrow> int" where
  "shl_one k =
     (let s = k mod 2 ^ 64
      in if 64 \<le> s then 0 else if s = 63 then - (2 ^ 63) else 2 ^ nat s)"

subsection \<open>The helper functions of the allocator\<close>

definition copyIP :: "IP \<Rightarrow> IP" where
  "copyIP ip = (if ip = [] then [] else ip)"

text \<open>
  \<open>incIP\<close> adds \<open>inc\<close> to the address, byte by byte from the last byte, until the
  carry is zero; a carry out of the first byte is dropped.  \<open>incIP_loop\<close> is the loop,
  on the bytes in reverse order.  (The sum \<open>int(res[i]) + carry\<close> stays inside 64 bits
  for every increment the allocator passes: 0, a power of two, or the least \<open>int\<close>.)
\<close>

fun incIP_loop :: "byte list \<Rightarrow> int \<Rightarrow> byte list" where
  "incIP_loop [] carry = []"
| "incIP_loop (b # bs) carry =
     (if carry = 0 then b # bs
      else let sum = uint b + carry
           in word_of_int (go_rem sum 256) # incIP_loop bs (go_quot sum 256))"

definition incIP :: "IP \<Rightarrow> int \<Rightarrow> IP" where
  "incIP ip inc = (let res = copyIP ip in rev (incIP_loop (rev res) inc))"

text \<open>
  \<open>compareIPs\<close>.  The loop over two addresses that are both not IPv4 reads the first 16
  bytes of each; on a shorter address Go panics with an index out of range.  Every address
  a pool holds comes from \<open>net.ParseCIDR\<close>, \<open>copyIP\<close> or \<open>incIP\<close> and has 4 or 16
  bytes, so that the panic is out of reach; \<open>compare_bytes\<close> stops at the end of the
  shorter list.
\<close>

fun compare_bytes :: "byte list \<Rightarrow> byte list \<Rightarrow> int" where
  "compare_bytes (x # xs) (y # ys) =
     (if x < y then - 1 else if y < x then 1 else compare_bytes xs ys)"
| "compare_bytes xs ys = 0"

definition compareIPs :: "IP \<Rightarrow> IP \<Rightarrow> int" where
  "compareIPs a b =
     (let a4 = To4 a; b4 = To4 b
      in if a4 \<noteq> [] \<and> b4 \<noteq> [] then compare_bytes (take 4 a4) (take 4 b4)
         else if a4 = [] \<and> b4 = [] then compare_bytes (take 16 a) (take 16 b)
         else if a4 \<noteq> [] \<and> b4 = [] then - 1
         else if a4 = [] \<and> b4 \<noteq> [] then 1
         else 0)"

definition compareIPNets :: "IPNet \<Rightarrow> IPNet \<Rightarrow> int" where
  "compareIPNets a b =
     (let cmp = compareIPs (IP a) (IP b)
      in if cmp \<noteq> 0 then cmp
         else let bitsA = fst (Size (Mask a)); bitsB = fst (Size (Mask b))
              in if bitsA < bitsB then 1 else if bitsB < bitsA then - 1 else 0)"

definition tryMerge :: "IPNet \<Rightarrow> IPNet \<Rightarrow> IPNet option" where
  "tryMerge a b =
     (if To4 (IP a) = [] \<or> To4 (IP b) = [] then None
      else let bitsA = fst (Size (Mask a)); bitsB = fst (Size (Mask b))
           in if bitsA \<noteq> bitsB then None
              else let mergedBits = bitsA - 1
                   in if mergedBits < 0 then None
                      else let mergedMask = CIDRMask mergedBits 32;
                               potentialMergedNet = \<lparr>IP = IP a, Mask = mergedMask\<rparr>;
                               blockSize = shl_one (32 - bitsA);
                               expectedNextIP = incIP (copyIP (IP a)) blockSize
                           in if IP_Equal expectedNextIP (IP b) then Some potentialMergedNet
                              else None)"

subsection \<open>Pools, the registry and the errors\<close>

text \<open>
  The allocator reports errors as formatted strings; \<open>error\<close> names the kinds.  The
  first six are the error returns of the source (\<open>Allocate\<close> and \<open>InitializePool\<close>
  wrap the error of \<open>allocateSubnetForPool\<close> in a longer message, which keeps its
  kind, except that \<open>InitializePool\<close> reports every failure of the VPN reservation as
  \<open>VPNReservationFailed\<close>).  \<open>InvalidPrefix\<close> and \<open>Cancelled\<close> are kinds of the
  specification's error table that no statement of the source returns.  \<open>RuntimePanic\<close>
  stands for a nil-pointer panic of the Go run time.
\<close>

datatype error =
    InvalidCIDR
  | VPNReservationFailed
  | PoolNotInitialized
  | ReallocationUnsupported
  | NoFreeBlock
  | NotAllocated
  | InvalidPrefix
  | Cancelled
  | RuntimePanic

record sliceIPPool =
  SliceSubnet :: IPNet
  Allocated :: "string \<Rightarrow> IPNet option"
  FreeBlocks :: "IPNet list"

record DynamicIPAMAllocator =
  pools :: "string \<Rightarrow> sliceIPPool option"

definition NewDynamicIPAMAllocator :: DynamicIPAMAllocator where
  "NewDynamicIPAMAllocator = \<lparr>pools = Map.empty\<rparr>"

text \<open>
  The \<open>context.Context\<close> argument of \<open>Allocate\<close> and \<open>Reclaim\<close>: all the model needs
  of it is whether it is already cancelled.
\<close>

datatype Context = CtxBackground | CtxCanceled

subsection \<open>allocateSubnetForPool\<close>

text \<open>
  The search loop: the index and a copy of the first free block whose prefix length is at
  most the requested one.
\<close>

fun firstFit :: "nat \<Rightarrow> IPNet list \<Rightarrow> int \<Rightarrow> (nat \<times> IPNet) option" where
  "firstFit i [] requiredCIDRSize = None"
| "firstFit i (freeNet # rest) requiredCIDRSize =
     (let freeBits = fst (Size (Mask freeNet))
      in if freeBits \<le> requiredCIDRSize
         then Some (i, \<lparr>IP = copyIP (IP freeNet), Mask = Mask freeNet\<rparr>)
         else firstFit (Suc i) rest requiredCIDRSize)"

text \<open>
  The loop \<^verbatim>\<open>for i := requiredCIDRSize; i > firstFitBits+1; i--\<close> of the split: it
  moves the cursor \<open>nextIP\<close> on by \<^verbatim>\<open>1<<uint(32-i)\<close> and appends a block of prefix
  length \<open>i - 1\<close> at the cursor when the first-fit block contains the cursor.
  (\<^verbatim>\<open>copy(nextIP, nextTonextIP)\<close> overwrites the whole cursor: both have the length
  of the first-fit block's address.)
\<close>

function splitLoop :: "IPNet \<Rightarrow> int \<Rightarrow> int \<Rightarrow> IP \<Rightarrow> IPNet list" where
  "splitLoop firstFitNet firstFitBits i nextIP =
     (if firstFitBits + 1 < i
      then let nextTonextIP = incIP (copyIP nextIP) (shl_one (32 - i))
           in (if Contains firstFitNet nextTonextIP
               then [\<lparr>IP = copyIP nextTonextIP, Mask = CIDRMask (i - 1) 32\<rparr>]
               else [])
              @ splitLoop firstFitNet firstFitBits (i - 1) nextTonextIP
      else [])"
  by pat_completeness auto
termination
  by (relation "measure (\<lambda>(firstFitNet, firstFitBits, i, nextIP). nat (i - firstFitBits))") simp_all

declare splitLoop.simps [simp del]

text \<open>
  The search only returns a block with \<open>firstFitBits \<le> requiredCIDRSize\<close>, so one of the
  two branches of the source is always taken; in the third case \<open>allocatedNet\<close> would
  still be \<open>nil\<close> and the source would panic after it has stored the new free list.  The
  model keeps the case as \<open>RuntimePanic\<close> on that state.
\<close>

definition allocateSubnetForPool ::
  "sliceIPPool \<Rightarrow> string \<Rightarrow> int \<Rightarrow> (error + IPNet) \<times> sliceIPPool" where
  "allocateSubnetForPool pool clusterName requiredCIDRSize =
     (case Allocated pool clusterName of
        Some allocatedNet \<Rightarrow>
          let existingBits = fst (Size (Mask allocatedNet))
          in if existingBits = requiredCIDRSize then (Inr allocatedNet, pool)
             else (Inl ReallocationUnsupported, pool)
      | None \<Rightarrow>
          (case firstFit 0 (FreeBlocks pool) requiredCIDRSize of
             None \<Rightarrow> (Inl NoFreeBlock, pool)
           | Some (firstFitIndex, firstFitNet) \<Rightarrow>
               let firstFitBits = fst (Size (Mask firstFitNet));
                   before = take firstFitIndex (FreeBlocks pool);
                   after = drop (firstFitIndex + 1) (FreeBlocks pool)
               in if firstFitBits < requiredCIDRSize then
                    let startIP = copyIP (IP firstFitNet);
                        allocatedNet = \<lparr>IP = startIP, Mask = CIDRMask requiredCIDRSize 32\<rparr>;
                        nextIP = incIP (copyIP startIP) (shl_one (32 - requiredCIDRSize));
                        remainderNets =
                          (if Contains firstFitNet nextIP
                           then [\<lparr>IP = copyIP nextIP, Mask = CIDRMask requiredCIDRSize 32\<rparr>]
                           else [])
                          @ splitLoop firstFitNet firstFitBits requiredCIDRSize nextIP;
                        newFree = before @ remainderNets @ after
                    in (Inr allocatedNet,
                        pool\<lparr>FreeBlocks := newFree,
                             Allocated := (Allocated pool)(clusterName \<mapsto>
                               \<lparr>IP = copyIP (IP allocatedNet), Mask = Mask allocatedNet\<rparr>)\<rparr>)
                  else if firstFitBits = requiredCIDRSize then
                    let allocatedNet = \<lparr>IP = copyIP (IP firstFitNet), Mask = Mask firstFitNet\<rparr>;
                        newFree = before @ after
                    in (Inr allocatedNet,
                        pool\<lparr>FreeBlocks := newFree,
                             Allocated := (Allocated pool)(clusterName \<mapsto>
                               \<lparr>IP = copyIP (IP allocatedNet), Mask = Mask allocatedNet\<rparr>)\<rparr>)
                  else (Inl RuntimePanic, pool\<lparr>FreeBlocks := before @ after\<rparr>)))"

subsection \<open>The three public operations\<close>

text \<open>
  \<open>InitializePool\<close>.  Its third argument is the result of
  \<open>net.ParseCIDR(sliceSubnetStr)\<close>: \<open>None\<close> for a parse error, otherwise the network
  (for an IPv4 string a 4-byte address with its host bits cleared and a 4-byte mask).  The
  pool is stored in the registry before the VPN reservation is tried, and stays there when
  the reservation fails.  The result is the error, \<open>None\<close> for \<open>nil\<close>.
\<close>

definition InitializePool ::
  "DynamicIPAMAllocator \<Rightarrow> string \<Rightarrow> IPNet option \<Rightarrow> error option \<times> DynamicIPAMAllocator" where
  "InitializePool a sliceName parsed =
     (case pools a sliceName of
        Some existing \<Rightarrow> (None, a)
      | None \<Rightarrow>
          (case parsed of
             None \<Rightarrow> (Some InvalidCIDR, a)
           | Some sliceNet \<Rightarrow>
               let pool = \<lparr>SliceSubnet = sliceNet, Allocated = Map.empty, FreeBlocks = [sliceNet]\<rparr>;
                   vpnSubnetRequiredSize = 24;
                   vpnClusterName = ''VPN_Subnet''
               in (case allocateSubnetForPool pool vpnClusterName vpnSubnetRequiredSize of
                     (Inl err, pool') \<Rightarrow>
                       (Some VPNReservationFailed, a\<lparr>pools := (pools a)(sliceName \<mapsto> pool')\<rparr>)
                   | (Inr vpnNet, pool') \<Rightarrow>
                       (None, a\<lparr>pools := (pools a)(sliceName \<mapsto> pool')\<rparr>))))"

text \<open>
  \<open>Allocate\<close> returns \<open>allocatedNet.String()\<close>; the model returns \<open>allocatedNet\<close>
  itself, the value that the text is printed from.  The context is never read.
\<close>

definition Allocate ::
  "Context \<Rightarrow> DynamicIPAMAllocator \<Rightarrow> string \<Rightarrow> string \<Rightarrow> int
     \<Rightarrow> (error + IPNet) \<times> DynamicIPAMAllocator" where
  "Allocate ctx a sliceName clusterName requiredCIDRSize =
     (case pools a sliceName of
        None \<Rightarrow> (Inl PoolNotInitialized, a)
      | Some pool \<Rightarrow>
          (case allocateSubnetForPool pool clusterName requiredCIDRSize of
             (Inl err, pool') \<Rightarrow> (Inl err, a\<lparr>pools := (pools a)(sliceName \<mapsto> pool')\<rparr>)
           | (Inr allocatedNet, pool') \<Rightarrow>
               (Inr allocatedNet, a\<lparr>pools := (pools a)(sliceName \<mapsto> pool')\<rparr>)))"

text \<open>
  \<open>sort.Slice\<close> with \<open>compareIPNets(x, y) < 0\<close> as the order.  For a slice of at most
  12 elements Go sorts by insertion, which is what \<open>sort_Slice\<close> does: each element in
  turn moves left past every element it is less than (\<open>insertLeft\<close>, on the sorted
  prefix in reverse order).  A longer slice is sorted by another algorithm, with the same
  result whenever no two distinct blocks compare equal.
\<close>

fun insertLeft :: "IPNet \<Rightarrow> IPNet list \<Rightarrow> IPNet list" where
  "insertLeft x [] = [x]"
| "insertLeft x (y # ys) =
     (if compareIPNets x y < 0 then y # insertLeft x ys else x # y # ys)"

definition sort_Slice :: "IPNet list \<Rightarrow> IPNet list" where
  "sort_Slice xs = rev (foldl (\<lambda>sorted x. insertLeft x sorted) [] xs)"

text \<open>The coalescing sweep of \<open>Reclaim\<close>: \<open>current\<close>, the blocks still to visit, and
  \<open>newFreeBlocks\<close>.\<close>

fun coalesce :: "IPNet \<Rightarrow> IPNet list \<Rightarrow> IPNet list \<Rightarrow> IPNet list" where
  "coalesce current [] newFreeBlocks = newFreeBlocks @ [current]"
| "coalesce current (next # rest) newFreeBlocks =
     (case tryMerge current next of
        Some merged \<Rightarrow> coalesce merged rest newFreeBlocks
      | None \<Rightarrow> coalesce next rest (newFreeBlocks @ [current]))"

definition Reclaim ::
  "Context \<Rightarrow> DynamicIPAMAllocator \<Rightarrow> string \<Rightarrow> string
     \<Rightarrow> error option \<times> DynamicIPAMAllocator" where
  "Reclaim ctx a sliceName clusterName =
     (case pools a sliceName of
        None \<Rightarrow> (Some PoolNotInitialized, a)
      | Some pool \<Rightarrow>
          (case Allocated pool clusterName of
             None \<Rightarrow> (Some NotAllocated, a)
           | Some subnetToReclaim \<Rightarrow>
               let sorted = sort_Slice (FreeBlocks pool @ [subnetToReclaim]);
                   newFreeBlocks = (case sorted of [] \<Rightarrow> []
                                    | current # rest \<Rightarrow> coalesce current rest [])
               in (None,
                   a\<lparr>pools := (pools a)(sliceName \<mapsto>
                        pool\<lparr>Allocated := (Allocated pool)(clusterName := None),
                             FreeBlocks := newFreeBlocks\<rparr>)\<rparr>)))"

subsection \<open>Sequences of calls\<close>

text \<open>
  A client's calls on one allocator, and the allocator after a sequence of them on a new
  allocator.
\<close>

datatype operation =
    OpInitializePool string "IPNet option"
  | OpAllocate Context string string int
  | OpReclaim Context string string

fun step :: "DynamicIPAMAllocator \<Rightarrow> operation \<Rightarrow> DynamicIPAMAllocator" where
  "step a (OpInitializePool sliceName parsed) = snd (InitializePool a sliceName parsed)"
| "step a (OpAllocate ctx sliceName clusterName requiredCIDRSize) =
     snd (Allocate ctx a sliceName clusterName requiredCIDRSize)"
| "step a (OpReclaim ctx sliceName clusterName) = snd (Reclaim ctx a sliceName clusterName)"

definition run :: "operation list \<Rightarrow> DynamicIPAMAllocator" where
  "run ops = foldl step NewDynamicIPAMAllocator ops"

text \<open>
  The cluster names that have an allocation in the pool of a slice, and the cluster names
  that a call can give an allocation to (\<open>InitializePool\<close> reserves for \<open>VPN_Subnet\<close>).
\<close>

definition clustersOf :: "DynamicIPAMAllocator \<Rightarrow> string \<Rightarrow> string set" where
  "clustersOf a sliceName =
     (case pools a sliceName of None \<Rightarrow> {} | Some pool \<Rightarrow> dom (Allocated pool))"

fun namedBy :: "operation \<Rightarrow> string set" where
  "namedBy (OpInitializePool sliceName parsed) = {''VPN_Subnet''}"
| "namedBy (OpAllocate ctx sliceName clusterName requiredCIDRSize) = {clusterName}"
| "namedBy (OpReclaim ctx sliceName clusterName) = {}"

subsection \<open>IPv4 CIDR blocks as the specification sees them\<close>

text \<open>
  \<open>ipv4net a b c d ones\<close> is the network with the address \<open>a.b.c.d\<close> and the 32-bit
  mask of \<open>ones\<close> ones, which is what \<open>net.ParseCIDR\<close> returns for the text
  \<open>a.b.c.d/ones\<close> when the host bits of the address are zero.  \<open>ipv4_value\<close> reads the
  bytes of an address as one number, first byte first, and \<open>prefixLen\<close> is the number of
  ones of the mask.  A network \<open>isCIDR4\<close> when its address has four bytes and its mask is
  a 32-bit mask of ones followed by zeros; it is \<open>canonical\<close> when, moreover, the low
  \<open>32 - prefixLen\<close> bits of its address are zero.  \<open>addrRange\<close> is the set of the
  \<open>2 ^ (32 - prefixLen)\<close> addresses from the network address on.
\<close>

definition ipv4net :: "byte \<Rightarrow> byte \<Rightarrow> byte \<Rightarrow> byte \<Rightarrow> int \<Rightarrow> IPNet" where
  "ipv4net a b c d ones = \<lparr>IP = [a, b, c, d], Mask = CIDRMask ones 32\<rparr>"

definition ipv4_value :: "IP \<Rightarrow> nat" where
  "ipv4_value ip = foldl (\<lambda>acc b. acc * 256 + unat b) 0 ip"

definition prefixLen :: "IPNet \<Rightarrow> int" where
  "prefixLen n = fst (Size (Mask n))"

definition isCIDR4 :: "IPNet \<Rightarrow> bool" where
  "isCIDR4 n \<longleftrightarrow>
     length (IP n) = 4 \<and> 0 \<le> prefixLen n \<and> prefixLen n \<le> 32
       \<and> Mask n = CIDRMask (prefixLen n) 32"

definition canonical :: "IPNet \<Rightarrow> bool" where
  "canonical n \<longleftrightarrow> isCIDR4 n \<and> ipv4_value (IP n) mod 2 ^ nat (32 - prefixLen n) = 0"


text \<open>\<open>IP.Mask\<close> of Go for an address and a mask of the same length.\<close>

definition IP_Mask :: "IP \<Rightarrow> IPMask \<Rightarrow> IP" where
  "IP_Mask ip m = map (\<lambda>(b, k). b AND k) (zip ip m)"

text \<open>
  The blocks of a pool: the networks allocated to the given cluster names, and the free
  blocks.
\<close>

definition blocksOf :: "sliceIPPool \<Rightarrow> string list \<Rightarrow> IPNet list" where
  "blocksOf pool names = List.map_filter (Allocated pool) names @ FreeBlocks pool"

text \<open>
  A merge opportunity: two blocks of the same prefix length \<open>p \<ge> 1\<close>, the address of one
  being the address of the other plus \<open>2 ^ (32 - p)\<close>.
\<close>

definition mergeable :: "IPNet \<Rightarrow> IPNet \<Rightarrow> bool" where
  "mergeable x y \<longleftrightarrow>
     prefixLen x = prefixLen y \<and> 1 \<le> prefixLen x \<and>
     (ipv4_value (IP y) = ipv4_value (IP x) + 2 ^ nat (32 - prefixLen x) \<or>
      ipv4_value (IP x) = ipv4_value (IP y) + 2 ^ nat (32 - prefixLen x))"

definition fullyCoalesced :: "IPNet list \<Rightarrow> bool" where
  "fullyCoalesced free \<longleftrightarrow> \<not> list_ex (\<lambda>x. list_ex (\<lambda>y. mergeable x y) free) free"

text \<open>
  The specification writes a CIDR block as a pair of a 32-bit network address and a prefix
  length.  \<open>asCIDR\<close> reads a network that way, and \<open>cidrRange\<close> is the range of addresses
  of such a pair.  \<open>cidrInside B x\<close> says that the address \<open>x\<close> lies inside the block
  \<open>B\<close>: it has the first \<open>prefix_length(B)\<close> bits of the address of \<open>B\<close>.  For a
  canonical block \<open>B\<close> these are the addresses of \<open>cidrRange B\<close>.
\<close>

type_synonym cidr = "nat \<times> int"


definition cidrRange :: "cidr \<Rightarrow> nat set" where
  "cidrRange c = {fst c ..< fst c + 2 ^ nat (32 - snd c)}"

definition cidrInside :: "cidr \<Rightarrow> nat \<Rightarrow> bool" where
  "cidrInside B x \<longleftrightarrow> x div 2 ^ nat (32 - snd B) = fst B div 2 ^ nat (32 - snd B)"




section \<open>Facts about the model\<close>

subsection \<open>The search and the error returns\<close>

text \<open>
  The search returns a block that is large enough, so \<open>allocateSubnetForPool\<close> never
  reaches its third case, and each of its error returns hands back the pool as it was.
\<close>

lemma firstFit_bits:
  "firstFit i free r = Some (j, n) \<Longrightarrow> fst (Size (Mask n)) \<le> r"
  by (induction free arbitrary: i) (auto simp: Let_def split: if_splits)

lemma allocateSubnetForPool_error_keeps_pool:
  assumes "fst (allocateSubnetForPool pool c r) = Inl e"
  shows "snd (allocateSubnetForPool pool c r) = pool"
proof (cases "Allocated pool c")
  case (Some n)
  then show ?thesis by (simp add: allocateSubnetForPool_def Let_def)
next
  case None
  show ?thesis
  proof (cases "firstFit 0 (FreeBlocks pool) r")
    case N: None
    with None show ?thesis by (simp add: allocateSubnetForPool_def)
  next
    case (Some jn)
    obtain j n where jn: "jn = (j, n)" by (cases jn)
    from Some jn have "fst (Size (Mask n)) \<le> r" using firstFit_bits by blast
    with assms None Some jn show ?thesis
      by (auto simp: allocateSubnetForPool_def Let_def split: if_splits)
  qed
qed

lemma registry_put_back:
  "pools a s = Some pool \<Longrightarrow> a\<lparr>pools := (pools a)(s \<mapsto> pool)\<rparr> = a"
  by (simp add: map_upd_triv)

lemma Allocate_error_keeps_registry:
  assumes "fst (Allocate ctx a s c r) = Inl e"
  shows "snd (Allocate ctx a s c r) = a"
proof (cases "pools a s")
  case None
  then show ?thesis by (simp add: Allocate_def)
next
  case (Some pool)
  obtain res pool' where r: "allocateSubnetForPool pool c r = (res, pool')"
    by (cases "allocateSubnetForPool pool c r")
  with assms Some obtain e' where "res = Inl e'"
    by (cases res) (auto simp: Allocate_def)
  with r allocateSubnetForPool_error_keeps_pool [of pool c r e'] have "pool' = pool" by simp
  with r Some \<open>res = Inl e'\<close> show ?thesis
    by (simp add: Allocate_def registry_put_back)
qed

lemma Reclaim_error_keeps_registry:
  "fst (Reclaim ctx a s c) = Some e \<Longrightarrow> snd (Reclaim ctx a s c) = a"
  by (auto simp: Reclaim_def Let_def split: option.splits)

lemma copyIP_id [simp]: "copyIP ip = ip"
  by (simp add: copyIP_def)

lemma firstFit_None:
  "list_all (\<lambda>b. r < prefixLen b) free \<Longrightarrow> firstFit i free r = None"
  by (induction free arbitrary: i) (auto simp: prefixLen_def Let_def)

subsection \<open>The cluster names of a pool\<close>

text \<open>Only the cluster names that the calls mention ever get an allocation.\<close>

lemma dom_allocateSubnetForPool:
  "dom (Allocated (snd (allocateSubnetForPool pool c r))) \<subseteq> insert c (dom (Allocated pool))"
  by (auto simp: allocateSubnetForPool_def Let_def split: option.splits if_splits)

lemma clustersOf_Allocate:
  "clustersOf (snd (Allocate ctx a s c r)) t \<subseteq> clustersOf a t \<union> {c}"
proof (cases "pools a s")
  case None
  then show ?thesis by (auto simp: Allocate_def)
next
  case (Some pool)
  obtain res pool' where r: "allocateSubnetForPool pool c r = (res, pool')"
    by (cases "allocateSubnetForPool pool c r")
  have d: "dom (Allocated pool') \<subseteq> insert c (dom (Allocated pool))"
    using dom_allocateSubnetForPool [of pool c r] r by simp
  have a': "snd (Allocate ctx a s c r) = a\<lparr>pools := (pools a)(s \<mapsto> pool')\<rparr>"
    using Some r by (cases res) (simp_all add: Allocate_def)
  show ?thesis
    unfolding a' using Some d by (auto simp: clustersOf_def split: option.splits if_splits)
qed

lemma clustersOf_Reclaim:
  "clustersOf (snd (Reclaim ctx a s c)) t \<subseteq> clustersOf a t"
  by (auto simp: Reclaim_def clustersOf_def Let_def split: option.splits if_splits)

lemma clustersOf_InitializePool:
  "clustersOf (snd (InitializePool a s parsed)) t \<subseteq> clustersOf a t \<union> {''VPN_Subnet''}"
proof (cases "pools a s")
  case (Some pool)
  then show ?thesis by (auto simp: InitializePool_def)
next
  case None
  show ?thesis
  proof (cases parsed)
    case N: None
    with None show ?thesis by (auto simp: InitializePool_def)
  next
    case (Some sliceNet)
    define pool where "pool = \<lparr>SliceSubnet = sliceNet, Allocated = Map.empty, FreeBlocks = [sliceNet]\<rparr>"
    obtain res pool' where r: "allocateSubnetForPool pool ''VPN_Subnet'' 24 = (res, pool')"
      by (cases "allocateSubnetForPool pool ''VPN_Subnet'' 24")
    have d: "dom (Allocated pool') \<subseteq> {''VPN_Subnet''}"
      using dom_allocateSubnetForPool [of pool "''VPN_Subnet''" 24] r by (simp add: pool_def)
    have a': "snd (InitializePool a s parsed) = a\<lparr>pools := (pools a)(s \<mapsto> pool')\<rparr>"
      using None Some r by (cases res) (simp_all add: InitializePool_def Let_def pool_def)
    show ?thesis
      unfolding a' using d by (auto simp: clustersOf_def split: option.splits if_splits)
  qed
qed

lemma clustersOf_step: "clustersOf (step a op) t \<subseteq> clustersOf a t \<union> namedBy op"
  using clustersOf_Allocate clustersOf_Reclaim clustersOf_InitializePool
  by (cases op) simp_all

lemma clustersOf_foldl:
  "clustersOf (foldl step a ops) t \<subseteq> clustersOf a t \<union> \<Union> (namedBy ` set ops)"
proof (induction ops arbitrary: a)
  case Nil
  show ?case by simp
next
  case (Cons op ops)
  have "clustersOf (foldl step (step a op) ops) t \<subseteq> clustersOf (step a op) t \<union> \<Union> (namedBy ` set ops)"
    by (rule Cons.IH)
  with clustersOf_step [of a op t] show ?case by auto
qed

lemma clustersOf_run: "clustersOf (run ops) t \<subseteq> \<Union> (namedBy ` set ops)"
  using clustersOf_foldl [of NewDynamicIPAMAllocator ops t]
  by (simp add: run_def clustersOf_def NewDynamicIPAMAllocator_def)

subsection \<open>Shapes of addresses and masks\<close>

lemma length_CIDRMask_bytes [simp]: "length (CIDRMask_bytes l n) = l"
  by (induction l arbitrary: n) auto

lemma length_CIDRMask_32:
  "0 \<le> p \<Longrightarrow> p \<le> 32 \<Longrightarrow> length (CIDRMask p 32) = 4"
  by (simp add: CIDRMask_def)

lemma CIDRMask_above_32: "32 < r \<Longrightarrow> CIDRMask r 32 = []"
  by (simp add: CIDRMask_def)

lemma isCIDR4_lengths:
  assumes "isCIDR4 B" shows "length (IP B) = 4" and "length (Mask B) = 4"
proof -
  from assms show "length (IP B) = 4" by (simp add: isCIDR4_def)
  from assms have "Mask B = CIDRMask (prefixLen B) 32" "0 \<le> prefixLen B" "prefixLen B \<le> 32"
    by (simp_all add: isCIDR4_def)
  then show "length (Mask B) = 4" using length_CIDRMask_32 by metis
qed

lemma To4_four: "length ip = 4 \<Longrightarrow> To4 ip = ip"
  by (simp add: To4_def)

lemma IPNet_eta [simp]: "\<lparr>IP = IP B, Mask = Mask B\<rparr> = B"
  by (cases B) simp

lemma networkNumberAndMask_four:
  assumes "length (IP B) = 4" "length (Mask B) = 4"
  shows "networkNumberAndMask B = (IP B, Mask B)"
proof -
  have "IP B \<noteq> []" using assms(1) by auto
  then show ?thesis using assms
    by (simp add: networkNumberAndMask_def To4_four Let_def)
qed

lemma Contains_own_address:
  assumes "length (IP B) = 4" "length (Mask B) = 4"
  shows "Contains B (IP B)"
proof -
  have "IP B \<noteq> []" using assms(1) by auto
  then show ?thesis using assms
    by (simp add: Contains_def networkNumberAndMask_four To4_four Let_def list_all_iff)
qed

lemma incIP_loop_zero: "incIP_loop bs 0 = bs"
  by (cases bs) simp_all

lemma incIP_zero: "incIP ip 0 = ip"
  by (simp add: incIP_def incIP_loop_zero)

lemma shl_one_above_32:
  assumes "32 < r" "r < 2 ^ 63" shows "shl_one (32 - r) = 0"
proof -
  have "(32 - r) mod 2 ^ 64 = (32 - r + 2 ^ 64) mod 2 ^ 64"
    by (rule mod_add_self2 [symmetric])
  also have "\<dots> = 32 - r + 2 ^ 64"
    by (rule mod_pos_pos_trivial) (use assms in simp_all)
  finally show ?thesis using assms by (simp add: shl_one_def)
qed

subsection \<open>incIP adds modulo the size of the address\<close>

lemma Size_CIDRMask_table:
  "list_all (\<lambda>p. Size (CIDRMask p 32) = (p, 32)) [0..32]"
  by code_simp

lemma Size_CIDRMask:
  assumes "0 \<le> p" "p \<le> 32" shows "Size (CIDRMask p 32) = (p, 32)"
proof -
  from assms have "p \<in> set [0..32]" by simp
  with Size_CIDRMask_table show ?thesis by (simp only: list_all_iff)
qed

lemma ipv4_value_snoc: "ipv4_value (bs @ [b]) = ipv4_value bs * 256 + unat b"
  by (simp add: ipv4_value_def)

lemma ipv4_value_Nil: "ipv4_value [] = 0"
  by (simp add: ipv4_value_def)

lemma unat_byte_less: "unat (b :: byte) < 256"
  using unsigned_less [of b, where 'a = nat] by simp

lemma ipv4_value_less: "ipv4_value bs < 256 ^ length bs"
proof (induction bs rule: rev_induct)
  case Nil
  show ?case by (simp add: ipv4_value_Nil)
next
  case (snoc b bs)
  have "ipv4_value bs * 256 + unat b < (ipv4_value bs + 1) * 256"
    using unat_byte_less [of b] by simp
  also have "\<dots> \<le> 256 ^ length bs * 256"
    using snoc.IH by (intro mult_le_mono1) simp
  finally show ?case by (simp add: ipv4_value_snoc)
qed

lemma go_quot_nat: "go_quot (int k) 256 = int (k div 256)"
  by (cases "k = 0") (simp_all add: go_quot_def zdiv_int)

lemma go_rem_nat: "go_rem (int k) 256 = int (k mod 256)"
proof -
  have "int k - 256 * int (k div 256) = int (k mod 256)"
    by (simp add: zmod_int zdiv_int minus_mult_div_eq_mod)
  then show ?thesis by (simp add: go_rem_def go_quot_nat)
qed

lemma length_incIP_loop [simp]: "length (incIP_loop bs c) = length bs"
  by (induction bs arbitrary: c) (auto simp: Let_def)

lemma length_incIP [simp]: "length (incIP ip inc) = length ip"
  by (simp add: incIP_def)

lemma split_mod:
  fixes x m r k :: nat
  assumes "r < m"
  shows "(x * m + r) mod (k * m) = (x mod k) * m + r"
proof -
  have "(x * m + r) mod (m * k) = m * ((x * m + r) div m mod k) + (x * m + r) mod m"
    by (rule mod_mult2_eq)
  moreover have "(x * m + r) div m = x" using assms by simp
  moreover have "(x * m + r) mod m = r" using assms by simp
  ultimately show ?thesis by (simp add: mult.commute)
qed

lemma incIP_loop_value:
  "ipv4_value (rev (incIP_loop bs (int c))) = (ipv4_value (rev bs) + c) mod 256 ^ length bs"
proof (induction bs arbitrary: c)
  case Nil
  show ?case by (simp add: ipv4_value_Nil)
next
  case (Cons b bs)
  show ?case
  proof (cases "c = 0")
    case True
    have "ipv4_value (rev (b # bs)) < 256 ^ length (b # bs)"
      using ipv4_value_less [of "rev (b # bs)"] by simp
    with True show ?thesis by simp
  next
    case False
    define k where "k = unat b + c"
    have sum: "uint b + int c = int k" by (simp add: k_def)
    have byte: "unat (word_of_nat (k mod 256) :: byte) = k mod 256"
      by (simp add: unat_of_nat)
    have "ipv4_value (rev (incIP_loop (b # bs) (int c)))
        = ipv4_value (rev (incIP_loop bs (int (k div 256)))) * 256 + k mod 256"
      using False by (simp add: Let_def sum go_quot_nat go_rem_nat ipv4_value_snoc byte)
    also have "\<dots> = ((ipv4_value (rev bs) + k div 256) mod 256 ^ length bs) * 256 + k mod 256"
      by (simp add: Cons.IH)
    also have "\<dots> = ((ipv4_value (rev bs) + k div 256) * 256 + k mod 256) mod (256 ^ length bs * 256)"
      by (rule split_mod [symmetric]) simp
    also have "(ipv4_value (rev bs) + k div 256) * 256 + k mod 256
        = ipv4_value (rev bs) * 256 + unat b + c"
      by (simp add: k_def algebra_simps)
    finally show ?thesis
      by (simp add: ipv4_value_snoc add.assoc mult.commute del: incIP_loop.simps)
  qed
qed

lemma incIP_value:
  "ipv4_value (incIP ip (int c)) = (ipv4_value ip + c) mod 256 ^ length ip"
  using incIP_loop_value [of "rev ip" c] by (simp add: incIP_def)

lemma ipv4_value_rev_inj:
  "length xs = length ys \<Longrightarrow> ipv4_value (rev xs) = ipv4_value (rev ys) \<Longrightarrow> xs = ys"
proof (induction xs ys rule: list_induct2)
  case Nil
  show ?case by simp
next
  case (Cons x xs y ys)
  from Cons.prems have e: "ipv4_value (rev xs) * 256 + unat x = ipv4_value (rev ys) * 256 + unat y"
    by (simp add: ipv4_value_snoc)
  have "(ipv4_value (rev xs) * 256 + unat x) mod 256 = unat x"
    using unat_byte_less [of x] by simp
  moreover have "(ipv4_value (rev ys) * 256 + unat y) mod 256 = unat y"
    using unat_byte_less [of y] by simp
  ultimately have "unat x = unat y" using e by simp
  then have xy: "x = y" by (simp add: word_unat_eq_iff)
  with e have "ipv4_value (rev xs) = ipv4_value (rev ys)" by simp
  with Cons.IH xy show ?case by simp
qed

lemma ipv4_value_inj:
  assumes "length xs = length ys" "ipv4_value xs = ipv4_value ys" shows "xs = ys"
  using ipv4_value_rev_inj [of "rev xs" "rev ys"] assms by simp

lemma shl_one_le_32:
  assumes "0 \<le> p" "p \<le> 32" shows "shl_one (32 - p) = int (2 ^ nat (32 - p))"
proof -
  have "(32 - p) mod 2 ^ 64 = 32 - p"
    by (rule mod_pos_pos_trivial) (use assms in simp_all)
  then show ?thesis using assms by (simp add: shl_one_def)
qed

lemma IP_Equal_same_length: "length x = length y \<Longrightarrow> IP_Equal x y \<longleftrightarrow> x = y"
  by (simp add: IP_Equal_def)

lemma To4_nonempty: "length ip = 4 \<Longrightarrow> To4 ip \<noteq> []"
  by (auto simp: To4_four)

lemma incIP_matches_iff:
  assumes "length x = 4" "length y = 4"
  shows "IP_Equal (incIP x (int c)) y \<longleftrightarrow> ipv4_value y = (ipv4_value x + c) mod 2 ^ 32"
proof -
  have "IP_Equal (incIP x (int c)) y \<longleftrightarrow> incIP x (int c) = y"
    using assms by (simp add: IP_Equal_same_length)
  also have "\<dots> \<longleftrightarrow> ipv4_value (incIP x (int c)) = ipv4_value y"
    using assms ipv4_value_inj [of "incIP x (int c)" y] by auto
  also have "\<dots> \<longleftrightarrow> ipv4_value y = (ipv4_value x + c) mod 2 ^ 32"
    using assms by (auto simp: incIP_value)
  finally show ?thesis .
qed

lemma tryMerge_CIDR4:
  assumes a: "isCIDR4 a" and b: "isCIDR4 b"
  shows "tryMerge a b =
     (if prefixLen a = prefixLen b \<and> 1 \<le> prefixLen a
         \<and> ipv4_value (IP b) = (ipv4_value (IP a) + 2 ^ nat (32 - prefixLen a)) mod 2 ^ 32
      then Some \<lparr>IP = IP a, Mask = CIDRMask (prefixLen a - 1) 32\<rparr>
      else None)"
proof -
  have la: "length (IP a) = 4" and lb: "length (IP b) = 4"
    using a b by (simp_all add: isCIDR4_def)
  have ra: "0 \<le> prefixLen a" "prefixLen a \<le> 32"
    using a by (simp_all add: isCIDR4_def)
  have v4: "To4 (IP a) \<noteq> []" "To4 (IP b) \<noteq> []"
    using la lb by (simp_all add: To4_nonempty)
  have sh: "shl_one (32 - prefixLen a) = int (2 ^ nat (32 - prefixLen a))"
    using ra by (rule shl_one_le_32)
  have eq: "IP_Equal (incIP (IP a) (int (2 ^ nat (32 - prefixLen a)))) (IP b)
      \<longleftrightarrow> ipv4_value (IP b) = (ipv4_value (IP a) + 2 ^ nat (32 - prefixLen a)) mod 2 ^ 32"
    using la lb by (rule incIP_matches_iff)
  show ?thesis
  proof (cases "prefixLen a = prefixLen b \<and> 1 \<le> prefixLen a")
    case False
    then show ?thesis
      using v4 by (auto simp: tryMerge_def Let_def prefixLen_def)
  next
    case True
    have "tryMerge a b =
        (if IP_Equal (incIP (IP a) (shl_one (32 - prefixLen a))) (IP b)
         then Some \<lparr>IP = IP a, Mask = CIDRMask (prefixLen a - 1) 32\<rparr>
         else None)"
      using True v4 by (simp add: tryMerge_def Let_def prefixLen_def)
    also have "\<dots> =
        (if ipv4_value (IP b) = (ipv4_value (IP a) + 2 ^ nat (32 - prefixLen a)) mod 2 ^ 32
         then Some \<lparr>IP = IP a, Mask = CIDRMask (prefixLen a - 1) 32\<rparr>
         else None)"
      by (simp only: sh eq)
    finally show ?thesis using True by simp
  qed
qed

text \<open>The carry out of the first byte is dropped, so the last /24 merges with the first.\<close>

lemma tryMerge_wraps_around:
  "tryMerge (ipv4net 255 255 255 0 24) (ipv4net 0 0 0 0 24)
     = Some \<lparr>IP = [255, 255, 255, 0], Mask = CIDRMask 23 32\<rparr>"
  by code_simp

subsection \<open>Contains compares the masked bits\<close>











subsection \<open>The split of a canonical block\<close>


lemma K_mono: "p \<le> q \<Longrightarrow> (2::nat) ^ nat (32 - q) \<le> 2 ^ nat (32 - p)"
  by (rule power_increasing) simp_all











lemma cidrInside_canonical:
  assumes "fst B mod 2 ^ nat (32 - snd B) = 0"
  shows "cidrInside B x \<longleftrightarrow> x \<in> cidrRange B"
proof -
  define S :: nat where "S = 2 ^ nat (32 - snd B)"
  have S: "0 < S" by (simp add: S_def)
  from assms obtain q where q: "fst B = S * q"
    unfolding S_def by (auto simp: mod_eq_0_iff_dvd)
  have d: "fst B div S = q" using S by (simp add: q)
  have "x div S = q \<longleftrightarrow> S * q \<le> x \<and> x < S * q + S"
  proof
    assume e: "x div S = q"
    have "x div S * S \<le> x" by (rule div_times_less_eq_dividend)
    moreover have "x < S + x div S * S" using S by (rule dividend_less_div_times)
    ultimately show "S * q \<le> x \<and> x < S * q + S" by (simp add: e mult.commute add.commute)
  next
    assume "S * q \<le> x \<and> x < S * q + S"
    then show "x div S = q" by (intro div_nat_eqI) simp_all
  qed
  then show ?thesis by (simp add: cidrInside_def cidrRange_def d S_def [symmetric] q [symmetric])
qed








subsection \<open>Repeating a successful request of at most 32 bits\<close>

lemma leading_ones_ge: "n \<le> fst (leading_ones n v)"
proof (induction n v rule: leading_ones.induct)
  case (1 n v)
  show ?case
  proof (cases "v AND 0x80 \<noteq> 0")
    case True
    with 1 have "n + 1 \<le> fst (leading_ones (n + 1) (push_bit 1 v))" by simp
    with True show ?thesis by (subst leading_ones.simps) simp
  next
    case False
    then show ?thesis by (subst leading_ones.simps) simp
  qed
qed

lemma simpleMaskLength_from_ge:
  "simpleMaskLength_from n m = - 1 \<or> n \<le> simpleMaskLength_from n m"
proof (induction m arbitrary: n)
  case Nil
  show ?case by simp
next
  case (Cons v rest)
  show ?case
  proof (cases "v = 0xff")
    case True
    with Cons [of "n + 8"] show ?thesis by auto
  next
    case False
    obtain n' v' where l: "leading_ones n v = (n', v')" by (cases "leading_ones n v")
    with leading_ones_ge [of n v] have "n \<le> n'" by simp
    with False l show ?thesis by simp
  qed
qed

lemma Size_nonneg: "0 \<le> fst (Size m)"
  using simpleMaskLength_from_ge [of 0 m] by (auto simp: Size_def simpleMaskLength_def Let_def)

lemma allocateSubnetForPool_again:
  assumes r32: "r \<le> 32" and ok: "fst (allocateSubnetForPool pool c r) = Inr n"
  shows "allocateSubnetForPool (snd (allocateSubnetForPool pool c r)) c r
     = (Inr n, snd (allocateSubnetForPool pool c r))"
proof (cases "Allocated pool c")
  case (Some a)
  with ok show ?thesis
    by (auto simp: allocateSubnetForPool_def Let_def split: if_splits)
next
  case None
  show ?thesis
  proof (cases "firstFit 0 (FreeBlocks pool) r")
    case N: None
    with None ok show ?thesis by (simp add: allocateSubnetForPool_def)
  next
    case (Some iB)
    obtain i B where iB: "iB = (i, B)" by (cases iB)
    have le: "fst (Size (Mask B)) \<le> r" using Some iB firstFit_bits by blast
    show ?thesis
    proof (cases "fst (Size (Mask B)) < r")
      case True
      have "0 \<le> r" using True Size_nonneg [of "Mask B"] by simp
      then have "fst (Size (CIDRMask r 32)) = r" using r32 by (simp add: Size_CIDRMask)
      with None Some iB True ok show ?thesis
        by (auto simp: allocateSubnetForPool_def Let_def)
    next
      case False
      with le have "fst (Size (Mask B)) = r" by simp
      with None Some iB ok show ?thesis
        by (auto simp: allocateSubnetForPool_def Let_def)
    qed
  qed
qed

lemma Allocate_idempotent_up_to_32:
  assumes r32: "r \<le> 32" and ok: "fst (Allocate ctx a s c r) = Inr n"
  shows "Allocate ctx' (snd (Allocate ctx a s c r)) s c r = (Inr n, snd (Allocate ctx a s c r))"
proof (cases "pools a s")
  case None
  with ok show ?thesis by (simp add: Allocate_def)
next
  case (Some pool)
  obtain res pool' where r: "allocateSubnetForPool pool c r = (res, pool')"
    by (cases "allocateSubnetForPool pool c r")
  with ok Some have res: "res = Inr n"
    by (cases res) (simp_all add: Allocate_def)
  have again: "allocateSubnetForPool pool' c r = (Inr n, pool')"
    using allocateSubnetForPool_again [OF r32, of pool c n] r res by simp
  have a': "snd (Allocate ctx a s c r) = a\<lparr>pools := (pools a)(s \<mapsto> pool')\<rparr>"
    using Some r res by (simp add: Allocate_def)
  show ?thesis
    unfolding a' using again by (simp add: Allocate_def)
qed

section \<open>The allocator on sequences of valid calls\<close>

text \<open>
  Claim C1: after every public operation of a sequence of valid calls, the blocks in
  \<open>Allocated\<close> and in \<open>FreeBlocks\<close> cover the slice subnet exactly, with no overlap and
  no gap.
  The source loses addresses.  On the slice \<open>10.0.0.0/22\<close> (VPN: \<open>10.0.0.0/24\<close>),
  allocate /24 to A (\<open>10.0.1.0/24\<close>) and to B (\<open>10.0.2.0/24\<close>), reclaim A, reclaim B
  (which merges the two into the block \<open>10.0.1.0\<close> with a /23 mask), and allocate /24
  to C.  C gets \<open>10.0.1.0/24\<close>; the other half is not put back, because the block with
  the /23 mask does not contain \<open>10.0.2.0\<close>.  Afterwards the blocks of the pool are
  \<open>10.0.0.0/24\<close>, \<open>10.0.1.0/24\<close> and \<open>10.0.3.0/24\<close>, and the address \<open>10.0.2.0\<close> of
  the slice subnet is in no free block and in no network allocated to any cluster.
\<close>

theorem allocate_after_unaligned_merge_loses_addresses:
  "fst (Allocate CtxBackground
          (run [OpInitializePool ''s'' (Some (ipv4net 10 0 0 0 22)),
                OpAllocate CtxBackground ''s'' ''A'' 24,
                OpAllocate CtxBackground ''s'' ''B'' 24,
                OpReclaim CtxBackground ''s'' ''A'',
                OpReclaim CtxBackground ''s'' ''B'']) ''s'' ''C'' 24)
     = Inr (ipv4net 10 0 1 0 24)
   \<and> (case pools (run [OpInitializePool ''s'' (Some (ipv4net 10 0 0 0 22)),
                       OpAllocate CtxBackground ''s'' ''A'' 24,
                       OpAllocate CtxBackground ''s'' ''B'' 24,
                       OpReclaim CtxBackground ''s'' ''A'',
                       OpReclaim CtxBackground ''s'' ''B'',
                       OpAllocate CtxBackground ''s'' ''C'' 24]) ''s'' of
         None \<Rightarrow> False
       | Some pool \<Rightarrow>
           SliceSubnet pool = ipv4net 10 0 0 0 22
           \<and> blocksOf pool [''VPN_Subnet'', ''A'', ''B'', ''C'']
               = [ipv4net 10 0 0 0 24, ipv4net 10 0 1 0 24, ipv4net 10 0 3 0 24]
           \<and> Contains (SliceSubnet pool) [10, 0, 2, 0]
           \<and> \<not> (\<exists>c n. Allocated pool c = Some n \<and> Contains n [10, 0, 2, 0])
           \<and> \<not> list_ex (\<lambda>n. Contains n [10, 0, 2, 0]) (FreeBlocks pool))"
proof -
  define ops where "ops = [OpInitializePool ''s'' (Some (ipv4net 10 0 0 0 22)),
                       OpAllocate CtxBackground ''s'' ''A'' 24,
                       OpAllocate CtxBackground ''s'' ''B'' 24,
                       OpReclaim CtxBackground ''s'' ''A'',
                       OpReclaim CtxBackground ''s'' ''B'',
                       OpAllocate CtxBackground ''s'' ''C'' 24]"
  have first: "fst (Allocate CtxBackground
          (run [OpInitializePool ''s'' (Some (ipv4net 10 0 0 0 22)),
                OpAllocate CtxBackground ''s'' ''A'' 24,
                OpAllocate CtxBackground ''s'' ''B'' 24,
                OpReclaim CtxBackground ''s'' ''A'',
                OpReclaim CtxBackground ''s'' ''B'']) ''s'' ''C'' 24)
     = Inr (ipv4net 10 0 1 0 24)"
    by code_simp
  have ev: "(case pools (run ops) ''s'' of
         None \<Rightarrow> False
       | Some pool \<Rightarrow>
           SliceSubnet pool = ipv4net 10 0 0 0 22
           \<and> blocksOf pool [''VPN_Subnet'', ''A'', ''B'', ''C'']
               = [ipv4net 10 0 0 0 24, ipv4net 10 0 1 0 24, ipv4net 10 0 3 0 24]
           \<and> Contains (SliceSubnet pool) [10, 0, 2, 0]
           \<and> list_all (\<lambda>c. case Allocated pool c of None \<Rightarrow> True
                                | Some n \<Rightarrow> \<not> Contains n [10, 0, 2, 0])
                 [''VPN_Subnet'', ''A'', ''B'', ''C'']
           \<and> \<not> list_ex (\<lambda>n. Contains n [10, 0, 2, 0]) (FreeBlocks pool))"
    unfolding ops_def by code_simp
  then obtain pool where pool: "pools (run ops) ''s'' = Some pool"
    and ss: "SliceSubnet pool = ipv4net 10 0 0 0 22"
    and bl: "blocksOf pool [''VPN_Subnet'', ''A'', ''B'', ''C'']
               = [ipv4net 10 0 0 0 24, ipv4net 10 0 1 0 24, ipv4net 10 0 3 0 24]"
    and inside: "Contains (SliceSubnet pool) [10, 0, 2, 0]"
    and named: "list_all (\<lambda>c. case Allocated pool c of None \<Rightarrow> True
                                | Some n \<Rightarrow> \<not> Contains n [10, 0, 2, 0])
                 [''VPN_Subnet'', ''A'', ''B'', ''C'']"
    and free: "\<not> list_ex (\<lambda>n. Contains n [10, 0, 2, 0]) (FreeBlocks pool)"
    by (cases "pools (run ops) ''s''") auto
  have "clustersOf (run ops) ''s'' = dom (Allocated pool)"
    by (simp add: clustersOf_def pool)
  moreover have "\<Union> (namedBy ` set ops) = {''VPN_Subnet'', ''A'', ''B'', ''C''}"
    by (auto simp: ops_def)
  ultimately have dom: "dom (Allocated pool) \<subseteq> {''VPN_Subnet'', ''A'', ''B'', ''C''}"
    using clustersOf_run [of ops "''s''"] by simp
  have none: "\<not> (\<exists>c n. Allocated pool c = Some n \<and> Contains n [10, 0, 2, 0])"
  proof
    assume "\<exists>c n. Allocated pool c = Some n \<and> Contains n [10, 0, 2, 0]"
    then obtain c n where cn: "Allocated pool c = Some n" "Contains n [10, 0, 2, 0]" by blast
    then have "c \<in> dom (Allocated pool)" by blast
    with dom have "c \<in> set [''VPN_Subnet'', ''A'', ''B'', ''C'']" by auto
    with named have "case Allocated pool c of None \<Rightarrow> True | Some n \<Rightarrow> \<not> Contains n [10, 0, 2, 0]"
      by (simp only: list_all_iff)
    with cn show False by simp
  qed
  have "(case pools (run ops) ''s'' of
         None \<Rightarrow> False
       | Some pool \<Rightarrow>
           SliceSubnet pool = ipv4net 10 0 0 0 22
           \<and> blocksOf pool [''VPN_Subnet'', ''A'', ''B'', ''C'']
               = [ipv4net 10 0 0 0 24, ipv4net 10 0 1 0 24, ipv4net 10 0 3 0 24]
           \<and> Contains (SliceSubnet pool) [10, 0, 2, 0]
           \<and> \<not> (\<exists>c n. Allocated pool c = Some n \<and> Contains n [10, 0, 2, 0])
           \<and> \<not> list_ex (\<lambda>n. Contains n [10, 0, 2, 0]) (FreeBlocks pool))"
    using ss bl inside none free by (simp only: pool option.case) blast
  with first show ?thesis unfolding ops_def by (rule conjI)
qed

text \<open>
  Claim C2: every CIDR stored in \<open>Allocated\<close> or \<open>FreeBlocks\<close> is canonical, and two
  adjacent free blocks of the same size that are not the halves of an aligned parent never
  arise, so that the merge of \<open>Reclaim\<close> never produces a non-canonical block.
  They do arise.  In the sequence above, reclaiming A and then B puts \<open>10.0.1.0/24\<close> and
  \<open>10.0.2.0/24\<close> side by side; \<open>Reclaim\<close> merges them into the address \<open>10.0.1.0\<close>
  with a /23 mask, whose low 9 bits are not zero, stores it in \<open>FreeBlocks\<close>, and a
  request for a /23 is then given that block.
\<close>

theorem reclaim_stores_non_canonical_block:
  "(let a = run [OpInitializePool ''s'' (Some (ipv4net 10 0 0 0 22)),
                 OpAllocate CtxBackground ''s'' ''A'' 24,
                 OpAllocate CtxBackground ''s'' ''B'' 24,
                 OpReclaim CtxBackground ''s'' ''A''];
        res = Reclaim CtxBackground a ''s'' ''B''
    in map_option FreeBlocks (pools a ''s'')
           = Some [ipv4net 10 0 1 0 24, ipv4net 10 0 3 0 24]
       \<and> fst res = None
       \<and> map_option FreeBlocks (pools (snd res) ''s'')
           = Some [ipv4net 10 0 1 0 23, ipv4net 10 0 3 0 24]
       \<and> fst (Allocate CtxBackground (snd res) ''s'' ''D'' 23) = Inr (ipv4net 10 0 1 0 23))
   \<and> \<not> canonical (ipv4net 10 0 1 0 23)"
proof -
  have trace:
    "(let a = run [OpInitializePool ''s'' (Some (ipv4net 10 0 0 0 22)),
                   OpAllocate CtxBackground ''s'' ''A'' 24,
                   OpAllocate CtxBackground ''s'' ''B'' 24,
                   OpReclaim CtxBackground ''s'' ''A''];
          res = Reclaim CtxBackground a ''s'' ''B''
      in map_option FreeBlocks (pools a ''s'')
             = Some [ipv4net 10 0 1 0 24, ipv4net 10 0 3 0 24]
         \<and> fst res = None
         \<and> map_option FreeBlocks (pools (snd res) ''s'')
             = Some [ipv4net 10 0 1 0 23, ipv4net 10 0 3 0 24]
         \<and> fst (Allocate CtxBackground (snd res) ''s'' ''D'' 23) = Inr (ipv4net 10 0 1 0 23))"
    by code_simp
  have p: "prefixLen (ipv4net 10 0 1 0 23) = 23"
    by code_simp
  have v: "ipv4_value (IP (ipv4net 10 0 1 0 23)) = 167772416"
    by (simp add: ipv4_value_def ipv4net_def)
  have "\<not> canonical (ipv4net 10 0 1 0 23)"
    by (simp add: canonical_def p v)
  with trace show ?thesis by (rule conjI)
qed

text \<open>
  Claim C3: on exit from every successful \<open>Reclaim\<close> the free list is fully coalesced (no
  two blocks of equal prefix length \<open>p \<ge> 1\<close> with addresses \<open>2 ^ (32 - p)\<close> apart).
  The sweep of the source does not achieve it.  On the slice \<open>10.0.0.0/22\<close>, allocate
  /24 to A (\<open>10.0.1.0/24\<close>), /24 to B (\<open>10.0.2.0/24\<close>), /25 to C (\<open>10.0.3.0/25\<close>),
  then reclaim B and reclaim C.  The last \<open>Reclaim\<close> succeeds, merges the two halves of
  \<open>10.0.3.0/24\<close> after it has already emitted \<open>10.0.2.0/24\<close>, and leaves the two
  /24 blocks side by side; \<open>tryMerge\<close> itself would merge them, and a request for a /23
  fails although \<open>10.0.2.0/23\<close> is wholly free.
\<close>

theorem reclaim_leaves_merge_opportunity:
  "(let a = run [OpInitializePool ''s'' (Some (ipv4net 10 0 0 0 22)),
                 OpAllocate CtxBackground ''s'' ''A'' 24,
                 OpAllocate CtxBackground ''s'' ''B'' 24,
                 OpAllocate CtxBackground ''s'' ''C'' 25,
                 OpReclaim CtxBackground ''s'' ''B''];
        res = Reclaim CtxBackground a ''s'' ''C''
    in fst res = None
       \<and> map_option FreeBlocks (pools (snd res) ''s'')
           = Some [ipv4net 10 0 2 0 24, ipv4net 10 0 3 0 24]
       \<and> tryMerge (ipv4net 10 0 2 0 24) (ipv4net 10 0 3 0 24) = Some (ipv4net 10 0 2 0 23)
       \<and> fst (Allocate CtxBackground (snd res) ''s'' ''D'' 23) = Inl NoFreeBlock)
   \<and> \<not> fullyCoalesced [ipv4net 10 0 2 0 24, ipv4net 10 0 3 0 24]"
proof -
  have trace:
    "(let a = run [OpInitializePool ''s'' (Some (ipv4net 10 0 0 0 22)),
                   OpAllocate CtxBackground ''s'' ''A'' 24,
                   OpAllocate CtxBackground ''s'' ''B'' 24,
                   OpAllocate CtxBackground ''s'' ''C'' 25,
                   OpReclaim CtxBackground ''s'' ''B''];
          res = Reclaim CtxBackground a ''s'' ''C''
      in fst res = None
         \<and> map_option FreeBlocks (pools (snd res) ''s'')
             = Some [ipv4net 10 0 2 0 24, ipv4net 10 0 3 0 24]
         \<and> tryMerge (ipv4net 10 0 2 0 24) (ipv4net 10 0 3 0 24) = Some (ipv4net 10 0 2 0 23)
         \<and> fst (Allocate CtxBackground (snd res) ''s'' ''D'' 23) = Inl NoFreeBlock)"
    by code_simp
  have p: "prefixLen (ipv4net 10 0 2 0 24) = 24" "prefixLen (ipv4net 10 0 3 0 24) = 24"
    by code_simp+
  have v: "ipv4_value (IP (ipv4net 10 0 2 0 24)) = 167772672"
    "ipv4_value (IP (ipv4net 10 0 3 0 24)) = 167772928"
    by (simp_all add: ipv4_value_def ipv4net_def)
  have "\<not> fullyCoalesced [ipv4net 10 0 2 0 24, ipv4net 10 0 3 0 24]"
    by (simp add: fullyCoalesced_def mergeable_def p v)
  with trace show ?thesis by (rule conjI)
qed

section \<open>Errors and the context\<close>

text \<open>
  Claim C4: a call of \<open>Allocate\<close> or \<open>Reclaim\<close> whose context is already cancelled
  returns a cancellation error and leaves the registry and every pool unchanged.
  The source never reads the context.  On the slice \<open>10.0.0.0/16\<close>, \<open>Allocate\<close> with a
  cancelled context gives \<open>10.0.1.0/24\<close> to A and records it, and \<open>Reclaim\<close> with a
  cancelled context succeeds and takes it out again.
\<close>

theorem cancelled_context_counterexample:
  "(let a = run [OpInitializePool ''s'' (Some (ipv4net 10 0 0 0 16))];
        res = Allocate CtxCanceled a ''s'' ''A'' 24;
        res' = Reclaim CtxCanceled (snd res) ''s'' ''A''
    in fst res = Inr (ipv4net 10 0 1 0 24)
       \<and> map_option (\<lambda>pool. Allocated pool ''A'') (pools a ''s'') = Some None
       \<and> map_option (\<lambda>pool. Allocated pool ''A'') (pools (snd res) ''s'')
           = Some (Some (ipv4net 10 0 1 0 24))
       \<and> fst res' = None
       \<and> map_option (\<lambda>pool. Allocated pool ''A'') (pools (snd res') ''s'') = Some None)"
  by code_simp

text \<open>
  Claim C4 as amended: \<open>Allocate\<close> and \<open>Reclaim\<close> do not consult the context; a call
  with a cancelled context returns what the same call returns with a live context, and
  leaves the same state.  A call that returns an error leaves the registry unchanged.
\<close>

theorem context_is_never_read:
  "Allocate ctx a s c r = Allocate CtxBackground a s c r
   \<and> Reclaim ctx a s c = Reclaim CtxBackground a s c
   \<and> (isl (fst (Allocate ctx a s c r)) \<longrightarrow> snd (Allocate ctx a s c r) = a)
   \<and> (fst (Reclaim ctx a s c) \<noteq> None \<longrightarrow> snd (Reclaim ctx a s c) = a)"
proof -
  have 1: "Allocate ctx a s c r = Allocate CtxBackground a s c r"
    by (simp add: Allocate_def)
  have 2: "Reclaim ctx a s c = Reclaim CtxBackground a s c"
    by (simp add: Reclaim_def)
  have 3: "isl (fst (Allocate ctx a s c r)) \<longrightarrow> snd (Allocate ctx a s c r) = a"
    using Allocate_error_keeps_registry [of ctx a s c r] by (auto simp: isl_def)
  have 4: "fst (Reclaim ctx a s c) \<noteq> None \<longrightarrow> snd (Reclaim ctx a s c) = a"
    using Reclaim_error_keeps_registry [of ctx a s c] by auto
  from 1 2 3 4 show ?thesis by blast
qed

theorem context_is_never_read_witness:
  "(let a = run [OpInitializePool ''s'' (Some (ipv4net 10 0 0 0 16))]
    in fst (Allocate CtxCanceled a ''s'' ''VPN_Subnet'' 25) = Inl ReallocationUnsupported
       \<and> snd (Allocate CtxCanceled a ''s'' ''VPN_Subnet'' 25) = a
       \<and> fst (Reclaim CtxCanceled a ''s'' ''never'') = Some NotAllocated
       \<and> snd (Reclaim CtxCanceled a ''s'' ''never'') = a
       \<and> Allocate CtxCanceled a ''s'' ''A'' 24 = Allocate CtxBackground a ''s'' ''A'' 24)"
proof -
  define a where "a = run [OpInitializePool ''s'' (Some (ipv4net 10 0 0 0 16))]"
  have e1: "fst (Allocate CtxCanceled a ''s'' ''VPN_Subnet'' 25) = Inl ReallocationUnsupported"
    unfolding a_def by code_simp
  have e2: "fst (Reclaim CtxCanceled a ''s'' ''never'') = Some NotAllocated"
    unfolding a_def by code_simp
  have i1: "isl (fst (Allocate CtxCanceled a ''s'' ''VPN_Subnet'' 25))"
    by (simp only: e1 sum.disc)
  have i2: "fst (Reclaim CtxCanceled a ''s'' ''never'') \<noteq> None"
    by (simp only: e2 option.distinct not_False_eq_True)
  have "isl (fst (Allocate CtxCanceled a ''s'' ''VPN_Subnet'' 25))
           \<longrightarrow> snd (Allocate CtxCanceled a ''s'' ''VPN_Subnet'' 25) = a"
    using context_is_never_read [of CtxCanceled a "''s''" "''VPN_Subnet''" 25]
    by (elim conjE)
  then have s1: "snd (Allocate CtxCanceled a ''s'' ''VPN_Subnet'' 25) = a"
    using i1 by (rule mp)
  have "fst (Reclaim CtxCanceled a ''s'' ''never'') \<noteq> None
           \<longrightarrow> snd (Reclaim CtxCanceled a ''s'' ''never'') = a"
    using context_is_never_read [of CtxCanceled a "''s''" "''never''" 24]
    by (elim conjE)
  then have s2: "snd (Reclaim CtxCanceled a ''s'' ''never'') = a"
    using i2 by (rule mp)
  have s3: "Allocate CtxCanceled a ''s'' ''A'' 24 = Allocate CtxBackground a ''s'' ''A'' 24"
    using context_is_never_read [of CtxCanceled a "''s''" "''A''" 24]
    by (elim conjE)
  show ?thesis
    unfolding Let_def a_def [symmetric]
    by (intro conjI) (rule e1 s1 e2 s2 s3)+
qed

section \<open>Requests outside the range of prefix lengths\<close>

text \<open>
  Claim C5: for a cluster with no allocation, \<open>Allocate\<close> with a requested prefix length
  outside \<open>[prefix_length(slice_subnet), 32]\<close> fails with \<open>InvalidPrefix\<close> and does not
  change the state.
  The source has no such validation.  On the slice \<open>10.0.0.0/16\<close> a request for a /8
  fails in the search, with the error of a pool that has no block large enough, and a
  request for a /33 succeeds.
\<close>

theorem invalid_prefix_counterexample:
  "(let a = run [OpInitializePool ''s'' (Some (ipv4net 10 0 0 0 16))]
    in fst (Allocate CtxBackground a ''s'' ''A'' 8) = Inl NoFreeBlock
       \<and> fst (Allocate CtxBackground a ''s'' ''A'' 33) = Inr \<lparr>IP = [10, 0, 1, 0], Mask = []\<rparr>)"
  by code_simp

text \<open>
  Claim C5 as amended: in a pool whose free blocks all have a prefix length of at least
  that of the slice subnet, \<open>Allocate\<close> for a cluster with no allocation and a requested
  prefix length below that of the slice subnet fails with \<open>NoFreeBlock\<close> and leaves the
  registry unchanged.  (Requests above 32 are the subject of claim C10.)
\<close>

theorem allocate_below_slice_prefix:
  assumes "pools a s = Some pool"
    and "Allocated pool c = None"
    and "list_all (\<lambda>b. prefixLen (SliceSubnet pool) \<le> prefixLen b) (FreeBlocks pool)"
    and "r < prefixLen (SliceSubnet pool)"
  shows "Allocate ctx a s c r = (Inl NoFreeBlock, a)"
proof -
  from assms(3,4) have "list_all (\<lambda>b. r < prefixLen b) (FreeBlocks pool)"
    by (auto simp: list_all_iff)
  then have "firstFit 0 (FreeBlocks pool) r = None" by (rule firstFit_None)
  with assms(2) have "allocateSubnetForPool pool c r = (Inl NoFreeBlock, pool)"
    by (simp add: allocateSubnetForPool_def)
  with assms(1) show ?thesis
    by (simp add: Allocate_def registry_put_back)
qed

theorem allocate_below_slice_prefix_witness:
  "Allocate CtxBackground (run [OpInitializePool ''s'' (Some (ipv4net 10 0 0 0 16))]) ''s'' ''A'' 8
     = (Inl NoFreeBlock, run [OpInitializePool ''s'' (Some (ipv4net 10 0 0 0 16))])"
proof -
  define a where "a = run [OpInitializePool ''s'' (Some (ipv4net 10 0 0 0 16))]"
  have "(case pools a ''s'' of None \<Rightarrow> False
         | Some pool \<Rightarrow>
             Allocated pool ''A'' = None
             \<and> list_all (\<lambda>b. prefixLen (SliceSubnet pool) \<le> prefixLen b) (FreeBlocks pool)
             \<and> 8 < prefixLen (SliceSubnet pool))"
    unfolding a_def by code_simp
  then obtain pool where h: "pools a ''s'' = Some pool" "Allocated pool ''A'' = None"
    "list_all (\<lambda>b. prefixLen (SliceSubnet pool) \<le> prefixLen b) (FreeBlocks pool)"
    "8 < prefixLen (SliceSubnet pool)"
    by (cases "pools a ''s''") auto
  show ?thesis
    unfolding a_def [symmetric]
    by (rule allocate_below_slice_prefix [OF h])
qed

section \<open>The split\<close>




section \<open>Merging\<close>

text \<open>
  Claim C7: \<open>try_merge(a, b)\<close> succeeds exactly when both blocks are IPv4, have the same
  prefix length \<open>p \<ge> 1\<close> and \<open>b.network_address = a.network_address + 2 ^ (32 - p)\<close>;
  the block returned has prefix length \<open>p - 1\<close> and the address of \<open>a\<close> masked by the
  mask of \<open>p - 1\<close> bits.
  The source keeps the address of \<open>a\<close> as it is: merging \<open>192.168.1.0/24\<close> with
  \<open>192.168.2.0/24\<close> gives the address \<open>192.168.1.0\<close> with a /23 mask, where the
  masked address is \<open>192.168.0.0\<close>.
\<close>

theorem tryMerge_keeps_unmasked_address:
  "tryMerge (ipv4net 192 168 1 0 24) (ipv4net 192 168 2 0 24)
     = Some \<lparr>IP = [192, 168, 1, 0], Mask = CIDRMask 23 32\<rparr>
   \<and> IP_Mask [192, 168, 1, 0] (CIDRMask 23 32) = [192, 168, 0, 0]"
  by code_simp

text \<open>
  Claim C7 as amended: a block whose address is not IPv4 never merges.  For IPv4 CIDR
  blocks \<open>a\<close> and \<open>b\<close> (4-byte addresses, 32-bit masks), \<open>tryMerge a b\<close> succeeds
  exactly when both have the same prefix length \<open>p \<ge> 1\<close> and the address of \<open>b\<close> is
  the address of \<open>a\<close> plus \<open>2 ^ (32 - p)\<close> in 32-bit unsigned arithmetic, that is
  modulo \<open>2 ^ 32\<close> (\<open>tryMerge_wraps_around\<close> is an instance); the block returned has
  the address of \<open>a\<close>, unchanged, and the prefix length \<open>p - 1\<close>.
\<close>

theorem tryMerge_characterisation:
  "(To4 (IP a) = [] \<or> To4 (IP b) = [] \<longrightarrow> tryMerge a b = None)
   \<and> (isCIDR4 a \<and> isCIDR4 b \<longrightarrow>
        tryMerge a b =
          (if prefixLen a = prefixLen b \<and> 1 \<le> prefixLen a
              \<and> ipv4_value (IP b) = (ipv4_value (IP a) + 2 ^ nat (32 - prefixLen a)) mod 2 ^ 32
           then Some \<lparr>IP = IP a, Mask = CIDRMask (prefixLen a - 1) 32\<rparr>
           else None)
        \<and> (1 \<le> prefixLen a \<longrightarrow>
             prefixLen \<lparr>IP = IP a, Mask = CIDRMask (prefixLen a - 1) 32\<rparr> = prefixLen a - 1))"
proof (intro conjI impI)
  assume "To4 (IP a) = [] \<or> To4 (IP b) = []"
  then show "tryMerge a b = None" by (auto simp: tryMerge_def)
next
  assume "isCIDR4 a \<and> isCIDR4 b"
  then show "tryMerge a b =
     (if prefixLen a = prefixLen b \<and> 1 \<le> prefixLen a
         \<and> ipv4_value (IP b) = (ipv4_value (IP a) + 2 ^ nat (32 - prefixLen a)) mod 2 ^ 32
      then Some \<lparr>IP = IP a, Mask = CIDRMask (prefixLen a - 1) 32\<rparr>
      else None)"
    using tryMerge_CIDR4 by blast
next
  assume "isCIDR4 a \<and> isCIDR4 b" and "1 \<le> prefixLen a"
  then have "0 \<le> prefixLen a - 1" "prefixLen a - 1 \<le> 32"
    by (simp_all add: isCIDR4_def)
  then show "prefixLen \<lparr>IP = IP a, Mask = CIDRMask (prefixLen a - 1) 32\<rparr> = prefixLen a - 1"
    by (simp add: prefixLen_def Size_CIDRMask)
qed

theorem tryMerge_characterisation_witness:
  "tryMerge (ipv4net 192 168 1 0 24) (ipv4net 192 168 2 0 24)
     = Some \<lparr>IP = [192, 168, 1, 0], Mask = CIDRMask 23 32\<rparr>
   \<and> prefixLen \<lparr>IP = [192, 168, 1, 0], Mask = CIDRMask 23 32\<rparr> = 23
   \<and> tryMerge (ipv4net 192 168 2 0 24) (ipv4net 192 168 1 0 24) = None
   \<and> tryMerge \<lparr>IP = [0, 0, 0, 0, 0, 0, 0, 0, 0, 0, 0, 0, 0, 0, 0, 1], Mask = CIDRMask 128 128\<rparr>
        (ipv4net 192 168 2 0 24) = None"
proof -
  define a where "a = ipv4net 192 168 1 0 24"
  define b where "b = ipv4net 192 168 2 0 24"
  define x where "x = \<lparr>IP = [0, 0, 0, 0, 0, 0, 0, 0, 0, 0, 0, 0, 0, 0, 0, 1 :: byte],
                         Mask = CIDRMask 128 128\<rparr>"
  have c: "isCIDR4 a \<and> isCIDR4 b" "isCIDR4 b \<and> isCIDR4 a"
    unfolding a_def b_def by code_simp+
  have p: "prefixLen a = 24" "prefixLen b = 24"
    unfolding a_def b_def by code_simp+
  have i: "IP a = [192, 168, 1, 0]" "IP b = [192, 168, 2, 0]"
    by (simp_all add: a_def b_def ipv4net_def)
  have v: "ipv4_value (IP a) = 3232235776" "ipv4_value (IP b) = 3232236032"
    by (simp_all add: i ipv4_value_def)
  have n: "To4 (IP x) = []"
    unfolding x_def by code_simp
  have "tryMerge a b = Some \<lparr>IP = IP a, Mask = CIDRMask 23 32\<rparr>"
    and "prefixLen \<lparr>IP = IP a, Mask = CIDRMask 23 32\<rparr> = 23"
    using tryMerge_characterisation [of a b] c(1) by (simp_all add: p v)
  then have 1: "tryMerge a b = Some \<lparr>IP = [192, 168, 1, 0], Mask = CIDRMask 23 32\<rparr>"
    and 2: "prefixLen \<lparr>IP = [192, 168, 1, 0], Mask = CIDRMask 23 32\<rparr> = 23"
    by (simp_all add: i)
  have 3: "tryMerge b a = None"
    using tryMerge_characterisation [of b a] c(2) by (simp add: p v)
  have 4: "tryMerge x b = None"
    using tryMerge_characterisation [of x b] n by simp
  show ?thesis
    unfolding a_def [symmetric] b_def [symmetric] x_def [symmetric]
    by (intro conjI) (rule 1 2 3 4)+
qed

section \<open>Repeated calls\<close>

text \<open>
  Claim C8: if \<open>Allocate(s, c, p)\<close> succeeds, then the same call made again succeeds,
  returns the same CIDR and changes nothing.
  For \<open>p = 33\<close> the first call succeeds (no upper bound on the requested size is
  checked) and stores a network with a \<open>nil\<close> mask, whose prefix length reads as 0; the
  second call then finds the cluster allocated with another size and fails.
\<close>

theorem allocate_33_is_not_idempotent:
  "(let a = run [OpInitializePool ''s'' (Some (ipv4net 10 0 0 0 16))];
        first = Allocate CtxBackground a ''s'' ''A'' 33;
        second = Allocate CtxBackground (snd first) ''s'' ''A'' 33
    in fst first = Inr \<lparr>IP = [10, 0, 1, 0], Mask = []\<rparr>
       \<and> fst second = Inl ReallocationUnsupported)"
  by code_simp

text \<open>
  Claim C9: when the VPN reservation failed (the slice is too small for a /24), every
  \<open>InitializePool\<close> call for that slice name returns an error.
  The source registers the pool before it tries the reservation and does not take it out
  again, and a call for a registered name returns \<open>nil\<close> at once.  For the slice
  \<open>10.0.0.0/25\<close> the first call fails and the second call reports success, on a pool
  that has no \<open>VPN_Subnet\<close> allocation.
\<close>

theorem second_InitializePool_succeeds_without_vpn:
  "(let first = InitializePool NewDynamicIPAMAllocator ''s'' (Some (ipv4net 10 0 0 0 25));
        second = InitializePool (snd first) ''s'' (Some (ipv4net 10 0 0 0 25))
    in fst first = Some VPNReservationFailed
       \<and> fst second = None
       \<and> map_option (\<lambda>pool. Allocated pool ''VPN_Subnet'') (pools (snd second) ''s'')
           = Some None)"
  by code_simp

section \<open>Requests above 32 bits\<close>

text \<open>
  Claim C10: in every initialized pool with a non-empty free list, \<open>Allocate\<close> for a new
  cluster name with a requested prefix length above 32 is not rejected.  It succeeds, and
  the first remainder block that it puts into \<open>FreeBlocks\<close> has the address of the block
  recorded in \<open>Allocated\<close>, so that the two overlap.
  The first such call leaves a pool on which the next one does something else.  On the
  slice \<open>10.0.0.0/16\<close>, after \<open>A\<close> asked for 33 bits, the first free block is
  \<open>10.0.1.0\<close> with a \<open>nil\<close> mask.  A request of 33 bits for \<open>B\<close> succeeds and
  returns that network, but it puts no remainder into \<open>FreeBlocks\<close>: a network with a
  \<open>nil\<close> mask contains no address, so the free list after the call is the one before
  without its first block.
\<close>

theorem second_request_above_32_inserts_no_remainder:
  "(let a = run [OpInitializePool ''s'' (Some (ipv4net 10 0 0 0 16)),
                 OpAllocate CtxBackground ''s'' ''A'' 33];
        res = Allocate CtxBackground a ''s'' ''B'' 33
    in fst res = Inr \<lparr>IP = [10, 0, 1, 0], Mask = []\<rparr>
       \<and> (case (pools a ''s'', pools (snd res) ''s'') of
             (Some p, Some p') \<Rightarrow>
               Allocated p ''B'' = None
               \<and> Allocated p' ''B'' = Some \<lparr>IP = [10, 0, 1, 0], Mask = []\<rparr>
               \<and> FreeBlocks p = \<lparr>IP = [10, 0, 1, 0], Mask = []\<rparr> # FreeBlocks p'
               \<and> length (FreeBlocks p) = 16
           | _ \<Rightarrow> False))"
  by code_simp

text \<open>
  Claim C10 as amended: in a pool whose first free block \<open>B\<close> is an IPv4 CIDR block (a
  four-byte address and a 32-bit mask of ones followed by zeros), \<open>Allocate\<close> for a new
  cluster name with a requested prefix length above 32 (a Go \<open>int\<close>) is not rejected.
  It succeeds, and the first remainder block that it puts into \<open>FreeBlocks\<close> has the
  address of the block recorded in \<open>Allocated\<close>, so that the two overlap.
  The mask \<open>net.CIDRMask(r, 32)\<close> is \<open>nil\<close> and the first cursor is the address of
  \<open>B\<close> again, so that the same network, the address of \<open>B\<close> with a \<open>nil\<close> mask,
  is recorded for the cluster and put first among the remainders.
\<close>

theorem allocate_above_32_overlaps:
  assumes "pools a s = Some pool"
    and "Allocated pool c = None"
    and "FreeBlocks pool = B # rest"
    and "isCIDR4 B"
    and "32 < r" and "r < 2 ^ 63"
  shows "fst (Allocate ctx a s c r) = Inr \<lparr>IP = IP B, Mask = []\<rparr>
    \<and> (\<exists>pool' rems.
          pools (snd (Allocate ctx a s c r)) s = Some pool'
          \<and> Allocated pool' c = Some \<lparr>IP = IP B, Mask = []\<rparr>
          \<and> FreeBlocks pool' = \<lparr>IP = IP B, Mask = []\<rparr> # rems @ rest)"
proof -
  have len: "length (IP B) = 4" "length (Mask B) = 4"
    using assms(4) by (rule isCIDR4_lengths)+
  have bits: "fst (Size (Mask B)) < r" "fst (Size (Mask B)) \<le> r"
    using assms(4,5) by (simp_all add: isCIDR4_def prefixLen_def)
  have ff: "firstFit 0 (FreeBlocks pool) r = Some (0, B)"
    using assms(3) bits by (simp add: Let_def)
  define rems where "rems = splitLoop B (fst (Size (Mask B))) r (IP B)"
  define pool' where "pool' = pool\<lparr>FreeBlocks := \<lparr>IP = IP B, Mask = []\<rparr> # rems @ rest,
     Allocated := (Allocated pool)(c \<mapsto> \<lparr>IP = IP B, Mask = []\<rparr>)\<rparr>"
  have "allocateSubnetForPool pool c r = (Inr \<lparr>IP = IP B, Mask = []\<rparr>, pool')"
    using assms(2,3,5,6) ff bits len
    by (simp add: allocateSubnetForPool_def Let_def CIDRMask_above_32 shl_one_above_32
        incIP_zero Contains_own_address rems_def pool'_def)
  then have "Allocate ctx a s c r
      = (Inr \<lparr>IP = IP B, Mask = []\<rparr>, a\<lparr>pools := (pools a)(s \<mapsto> pool')\<rparr>)"
    using assms(1) by (simp add: Allocate_def)
  then show ?thesis by (auto simp: pool'_def)
qed

theorem allocate_above_32_overlaps_witness:
  "(let a = run [OpInitializePool ''s'' (Some (ipv4net 10 0 0 0 16))];
        res = Allocate CtxBackground a ''s'' ''A'' 33
    in fst res = Inr \<lparr>IP = [10, 0, 1, 0], Mask = []\<rparr>
       \<and> (\<exists>pool' rems.
             pools (snd res) ''s'' = Some pool'
             \<and> Allocated pool' ''A'' = Some \<lparr>IP = [10, 0, 1, 0], Mask = []\<rparr>
             \<and> FreeBlocks pool'
                 = \<lparr>IP = [10, 0, 1, 0], Mask = []\<rparr> # rems @ [ipv4net 10 0 2 0 23,
                     ipv4net 10 0 4 0 22, ipv4net 10 0 8 0 21, ipv4net 10 0 16 0 20,
                     ipv4net 10 0 32 0 19, ipv4net 10 0 64 0 18, ipv4net 10 0 128 0 17]))"
proof -
  define a where "a = run [OpInitializePool ''s'' (Some (ipv4net 10 0 0 0 16))]"
  define rest where "rest = [ipv4net 10 0 2 0 23,
                     ipv4net 10 0 4 0 22, ipv4net 10 0 8 0 21, ipv4net 10 0 16 0 20,
                     ipv4net 10 0 32 0 19, ipv4net 10 0 64 0 18, ipv4net 10 0 128 0 17]"
  have "(case pools a ''s'' of None \<Rightarrow> False
         | Some pool \<Rightarrow>
             Allocated pool ''A'' = None
             \<and> FreeBlocks pool = \<lparr>IP = [10, 0, 1, 0], Mask = CIDRMask 24 32\<rparr> # rest)"
    unfolding a_def rest_def by code_simp
  then obtain pool where h: "pools a ''s'' = Some pool" "Allocated pool ''A'' = None"
    "FreeBlocks pool = \<lparr>IP = [10, 0, 1, 0], Mask = CIDRMask 24 32\<rparr> # rest"
    by (cases "pools a ''s''") auto
  have c: "isCIDR4 \<lparr>IP = [10, 0, 1, 0], Mask = CIDRMask 24 32\<rparr>"
    by code_simp
  have b: "(32::int) < 33" "(33::int) < 2 ^ 63"
    by simp_all
  show ?thesis
    unfolding Let_def a_def [symmetric] rest_def [symmetric]
    using allocate_above_32_overlaps [OF h c b, of CtxBackground] by simp
qed

end
